theory Spec2Isabelle
  imports Complex_Main "HOL-Library.Word"
begin

unbundle bit_operations_syntax

section \<open>Python and numpy values\<close>

text \<open>
  The exceptions the methods of \<^verbatim>\<open>haptools/data/genotypes.py\<close> can end with. The two
  validation errors are both \<^verbatim>\<open>ValueError\<close> in the source; they are told apart here by
  their message, whose four format arguments (variant id, chromosome, position, sample)
  are kept as they are. \<open>ValueError\<close> stands for the \<^verbatim>\<open>ValueError\<close> numpy itself raises
  (\<^verbatim>\<open>transpose\<close> with axes that do not match the array, \<^verbatim>\<open>np.empty\<close> with a negative
  dimension).
\<close>

datatype error =
    MultiallelicSite string string nat string
  | UnphasedGenotype string string nat string
  | ValueError
  | IndexError
  | TypeError
  | AttributeError

text \<open>
  A method mutates \<^verbatim>\<open>self\<close> and either returns or raises: it is modelled as a function
  from the object to an outcome and the object as the method leaves it.
\<close>

datatype outcome = Returned | Raised error

text \<open>
  A three-dimensional numpy array: its shape and its elements, nested in C order
  (first axis outermost). The shape is kept beside the elements because an axis of
  length zero hides the lengths of the axes after it.
\<close>

record 'a ndarray =
  shape0 :: nat
  shape1 :: nat
  shape2 :: nat
  cells :: "'a list list list"

definition wf_nd :: "'a ndarray \<Rightarrow> bool" where
  "wf_nd a =
     (length (cells a) = shape0 a \<and>
      list_all (\<lambda>row. length row = shape1 a \<and>
                 list_all (\<lambda>cell. length cell = shape2 a) row) (cells a))"

definition map_nd :: "('a \<Rightarrow> 'b) \<Rightarrow> 'a ndarray \<Rightarrow> 'b ndarray" where
  "map_nd f a =
     \<lparr>shape0 = shape0 a, shape1 = shape1 a, shape2 = shape2 a,
      cells = map (map (map f)) (cells a)\<rparr>"

text \<open>
  What the attribute \<^verbatim>\<open>self.data\<close> can hold: \<^verbatim>\<open>None\<close> (before any read); the Python
  list \<^verbatim>\<open>read\<close> collects the records' genotypes in, of the given length (it stays in
  place when \<^verbatim>\<open>np.array\<close> raises on it); an array of \<^verbatim>\<open>uint8\<close> with fewer than three
  axes (what \<^verbatim>\<open>np.array\<close> builds from no records: such an array has no elements, only a
  shape); or a three-dimensional array of dtype \<^verbatim>\<open>uint8\<close> or \<^verbatim>\<open>bool\<close>.
\<close>

datatype data_attr =
    NoData
  | PyList nat
  | LowRank "nat list"
  | UInt8Arr "8 word ndarray"
  | BoolArr "bool ndarray"

text \<open>
  One entry of the structured array \<^verbatim>\<open>self.variants\<close>. The fourth field is created
  under the name \<^verbatim>\<open>aaf\<close> and renamed to \<^verbatim>\<open>maf\<close> by \<^verbatim>\<open>to_MAC\<close>; \<open>freq_name\<close> is that
  name, and \<open>None\<close> is the unstructured \<^verbatim>\<open>np.array([])\<close> of \<^verbatim>\<open>__init__\<close>, whose dtype has
  no field names. The \<^verbatim>\<open>float64\<close> frequency is read as a real number.
\<close>

record variant =
  var_id :: string
  var_chrom :: string
  var_pos :: nat
  var_aaf :: real

datatype freq_name = AAF | MAF

record Genotypes =
  data :: data_attr
  samples :: "string list"
  variants :: "variant list"
  freq_field :: "freq_name option"
  log_records :: "string list"

definition Genotypes_init :: "string list \<Rightarrow> Genotypes" where
  "Genotypes_init lg =
     \<lparr>data = NoData, samples = [], variants = [], freq_field = None, log_records = lg\<rparr>"

definition warning :: "string \<Rightarrow> Genotypes \<Rightarrow> Genotypes" where
  "warning msg self = self\<lparr>log_records := log_records self @ [msg]\<rparr>"

section \<open>The variant-call reader\<close>

text \<open>
  The external reader (\<^verbatim>\<open>cyvcf2.VCF\<close>) is a parameter: \<open>VCF_samples\<close> is what
  \<^verbatim>\<open>vcf.samples\<close> reports for a sample selection, \<open>VCF_call\<close> the records \<^verbatim>\<open>vcf(region)\<close>
  yields. A record carries one call per reported sample, \<^verbatim>\<open>[allele1, allele2, phased]\<close>;
  \<open>rec_genotypes r i\<close> is the call of the \<open>i\<close>-th reported sample, with the allele codes
  as \<^verbatim>\<open>uint8\<close> stores them. When the reader reports no sample, a record's
  \<^verbatim>\<open>genotypes\<close> is \<^verbatim>\<open>None\<close>. The model covers diploid calls of a source the reader can
  open and query; a source it cannot open, or a region query on an unindexed file, ends
  in the reader's own exception before anything is assigned.
\<close>

record vcf_record =
  rec_ID :: string
  rec_CHROM :: string
  rec_POS :: nat
  rec_aaf :: real
  rec_genotypes :: "nat \<Rightarrow> 8 word \<times> 8 word \<times> bool"

record VCF =
  VCF_samples :: "string list option \<Rightarrow> string list"
  VCF_call :: "string list option \<Rightarrow> string option \<Rightarrow> vcf_record list"

text \<open>
  Modelled from the spec: \<^verbatim>\<open>Data.read\<close> of \<^verbatim>\<open>haptools/data/data.py\<close>, the base-class
  method both loaders call first; the file is not among the sources. The spec has a
  second call re-read and overwrite the prior data, warning at the least, and
  \<^verbatim>\<open>tests/test_data.py\<close> finds no record after a first \<^verbatim>\<open>read\<close> and one warning record
  after a second: the method logs one warning when data is already loaded, and does
  nothing else.
\<close>

definition Data_read :: "bool \<Rightarrow> string list \<Rightarrow> string list" where
  "Data_read loaded lg =
     (if loaded then lg @ [''The data has already been loaded. Overriding.''] else lg)"

definition variant_of :: "vcf_record \<Rightarrow> variant" where
  \<comment> \<open>the dtype of the structured array cuts the strings: U50 and U10\<close>
  "variant_of r =
     \<lparr>var_id = take 50 (rec_ID r), var_chrom = take 10 (rec_CHROM r),
      var_pos = rec_POS r, var_aaf = rec_aaf r\<rparr>"

definition cell_of :: "8 word \<times> 8 word \<times> bool \<Rightarrow> 8 word list" where
  "cell_of c = (case c of (a, b, ph) \<Rightarrow> [a, b, if ph then 1 else 0])"

definition np_array_shape :: "nat \<Rightarrow> nat \<Rightarrow> error + nat list" where
  \<comment> \<open>\<^verbatim>\<open>np.array(self.data, dtype=np.uint8)\<close> on the genotypes of \<open>p\<close> records: each a
      list of \<open>n\<close> triples, or \<^verbatim>\<open>None\<close> when \<open>n = 0\<close>, which no \<^verbatim>\<open>uint8\<close> can hold\<close>
  "np_array_shape p n =
     (if p = 0 then Inr [0] else if n = 0 then Inl TypeError else Inr [p, n, 3])"

definition Genotypes_read ::
  "VCF \<Rightarrow> string option \<Rightarrow> string list option \<Rightarrow> Genotypes \<Rightarrow> outcome \<times> Genotypes" where
  "Genotypes_read vcf region samps self =
     (let self1 = self\<lparr>log_records := Data_read (data self \<noteq> NoData) (log_records self)\<rparr>;
          recs = VCF_call vcf samps region;
          n = length (VCF_samples vcf samps);
          self2 = self1\<lparr>samples := VCF_samples vcf samps,
                        variants := map variant_of recs,
                        freq_field := Some AAF\<rparr>
      in case np_array_shape (length recs) n of
           Inl e \<Rightarrow> (Raised e, self2\<lparr>data := PyList (length recs)\<rparr>)
         | Inr shp \<Rightarrow>
             (let self3 = (if shp = [0, 0, 0]
                           then warning (''Failed to load genotypes. If you specified a region, check that the''
                                         @ '' contig name matches! For example, double-check the 'chr' prefix.'')
                                  self2
                           else self2)
              in if length shp \<noteq> 3
                 then (Raised ValueError, self3\<lparr>data := LowRank shp\<rparr>)
                 else (Returned,
                       self3\<lparr>data := UInt8Arr
                         \<lparr>shape0 = n, shape1 = length recs, shape2 = 3,
                          cells = map (\<lambda>i. map (\<lambda>r. cell_of (rec_genotypes r i)) recs)
                                      [0..<n]\<rparr>\<rparr>)))"

section \<open>The columnar reader\<close>

record GenotypesPLINK =
  plink_data :: "32 word ndarray option"
  plink_samples :: "string list"
  plink_variants :: "variant list"
  plink_log_records :: "string list"

text \<open>
  The external \<^verbatim>\<open>pgenlib.PgenReader\<close> is a parameter: its sample count, and what
  \<^verbatim>\<open>read_alleles_range\<close> writes into the buffer it is given (row, column).
\<close>

record PgenReader =
  get_raw_sample_ct :: nat
  read_alleles_range :: "int \<Rightarrow> int option \<Rightarrow> nat \<Rightarrow> nat \<Rightarrow> 32 word"

definition py_sub :: "int option \<Rightarrow> int \<Rightarrow> error + int" where
  \<comment> \<open>Python's \<^verbatim>\<open>a - b\<close> where \<^verbatim>\<open>a\<close> may be \<^verbatim>\<open>None\<close>\<close>
  "py_sub a b = (case a of None \<Rightarrow> Inl TypeError | Some x \<Rightarrow> Inr (x - b))"

definition GenotypesPLINK_read ::
  "PgenReader \<Rightarrow> string option \<Rightarrow> string list option \<Rightarrow> GenotypesPLINK
     \<Rightarrow> outcome \<times> GenotypesPLINK" where
  "GenotypesPLINK_read pgen region samps self =
     (let self1 = self\<lparr>plink_log_records :=
                    Data_read (plink_data self \<noteq> None) (plink_log_records self)\<rparr>;
          variant_ct_start = (0 :: int);
          variant_ct_end = (None :: int option)
      in case py_sub variant_ct_end variant_ct_start of
           Inl e \<Rightarrow> (Raised e, self1)
         | Inr variant_ct \<Rightarrow>
             (let sample_ct = get_raw_sample_ct pgen in
              if variant_ct < 0 then (Raised ValueError, self1)
              else
                (let buf = read_alleles_range pgen variant_ct_start variant_ct_end
                 in (Returned,
                     self1\<lparr>plink_data := Some
                       \<lparr>shape0 = sample_ct, shape1 = nat variant_ct, shape2 = 2,
                        cells = map (\<lambda>s. map (\<lambda>v. [buf v (2 * s), buf v (2 * s + 1)])
                                            [0..<nat variant_ct])
                                    [0..<sample_ct]\<rparr>\<rparr>))))"

section \<open>The checks and the recoding\<close>

definition np_any :: "bool list list \<Rightarrow> bool" where
  "np_any m = list_ex (list_ex (\<lambda>b. b)) m"

text \<open>
  \<^verbatim>\<open>np.nonzero\<close> on a two-dimensional mask: the index pairs of the true entries in
  row-major order. The source's \<^verbatim>\<open>samp_idx\<close> is the list of first components and
  \<^verbatim>\<open>variant_idx\<close> the list of second components.
\<close>

fun nonzero_row :: "nat \<Rightarrow> nat \<Rightarrow> bool list \<Rightarrow> (nat \<times> nat) list" where
  "nonzero_row i j [] = []"
| "nonzero_row i j (b # bs) = (if b then [(i, j)] else []) @ nonzero_row i (Suc j) bs"

fun nonzero_from :: "nat \<Rightarrow> bool list list \<Rightarrow> (nat \<times> nat) list" where
  "nonzero_from i [] = []"
| "nonzero_from i (r # rs) = nonzero_row i 0 r @ nonzero_from (Suc i) rs"

definition np_nonzero :: "bool list list \<Rightarrow> (nat \<times> nat) list" where
  "np_nonzero m = nonzero_from 0 m"

text \<open>
  \<^verbatim>\<open>np.delete\<close> with a list of indices: every listed position is dropped (a position
  listed twice is dropped once), and an index beyond the end is an \<^verbatim>\<open>IndexError\<close>
  (\<open>None\<close>).
\<close>

definition delete_at :: "nat list \<Rightarrow> 'a list \<Rightarrow> 'a list" where
  "delete_at idx xs = map snd (filter (\<lambda>jx. fst jx \<notin> set idx) (enumerate 0 xs))"

definition np_delete :: "nat list \<Rightarrow> 'a list \<Rightarrow> 'a list option" where
  "np_delete idx xs =
     (if list_all (\<lambda>j. j < length xs) idx then Some (delete_at idx xs) else None)"

definition np_delete_axis1 :: "nat list \<Rightarrow> 'a ndarray \<Rightarrow> 'a ndarray option" where
  "np_delete_axis1 idx a =
     (if list_all (\<lambda>j. j < shape1 a) idx
      then Some (a\<lparr>shape1 := shape1 a - length (remdups idx),
                   cells := map (delete_at idx) (cells a)\<rparr>)
      else None)"

definition multiallelic_mask :: "8 word ndarray \<Rightarrow> bool list list" where
  \<comment> \<open>\<^verbatim>\<open>np.any(self.data[:, :, :2] > 1, axis=2)\<close>\<close>
  "multiallelic_mask a = map (map (\<lambda>cell. list_ex (\<lambda>x. 1 < x) (take 2 cell))) (cells a)"

definition named :: "Genotypes \<Rightarrow> nat \<times> nat \<Rightarrow> (string \<times> string \<times> nat \<times> string) option" where
  \<comment> \<open>the format arguments of the error message; \<open>None\<close> is an \<^verbatim>\<open>IndexError\<close>\<close>
  "named self ij =
     (case ij of (i, j) \<Rightarrow>
        if j < length (variants self) \<and> i < length (samples self)
        then Some (var_id (variants self ! j), var_chrom (variants self ! j),
                   var_pos (variants self ! j), samples self ! i)
        else None)"

definition check_biallelic :: "bool \<Rightarrow> Genotypes \<Rightarrow> outcome \<times> Genotypes" where
  "check_biallelic discard_also self =
     (case data self of
        NoData \<Rightarrow> (Raised AttributeError, self)
      | PyList p \<Rightarrow> (Raised AttributeError, self)
      | BoolArr a \<Rightarrow> (Returned, warning ''All genotypes are already biallelic'' self)
      | LowRank shp \<Rightarrow> (Raised IndexError, self)
      | UInt8Arr a \<Rightarrow>
          (let multiallelic = multiallelic_mask a in
           if np_any multiallelic then
             (let nz = np_nonzero multiallelic;
                  samp_idx = map fst nz;
                  variant_idx = map snd nz
              in if discard_also then
                   (case np_delete_axis1 variant_idx a of
                      None \<Rightarrow> (Raised IndexError, self)
                    | Some a1 \<Rightarrow>
                        (let self1 = self\<lparr>data := UInt8Arr a1\<rparr> in
                         case np_delete variant_idx (variants self1) of
                           None \<Rightarrow> (Raised IndexError, self1)
                         | Some vs \<Rightarrow>
                             (Returned,
                              self1\<lparr>variants := vs,
                                    data := BoolArr (map_nd (\<lambda>x. x \<noteq> 0) a1)\<rparr>)))
                 else
                   (case nz of
                      [] \<Rightarrow> (Raised IndexError, self)
                    | ij # _ \<Rightarrow>
                        (case named self ij of
                           None \<Rightarrow> (Raised IndexError, self)
                         | Some (vid, vchrom, vpos, samp) \<Rightarrow>
                             (Raised (MultiallelicSite vid vchrom vpos samp), self))))
           else (Returned, self\<lparr>data := BoolArr (map_nd (\<lambda>x. x \<noteq> 0) a)\<rparr>)))"

definition unphased_uint8 :: "8 word ndarray \<Rightarrow> 8 word list list" where
  \<comment> \<open>\<^verbatim>\<open>(data[:, :, 0] ^ data[:, :, 1]) & (~data[:, :, 2])\<close> on \<^verbatim>\<open>uint8\<close>: bitwise\<close>
  "unphased_uint8 a = map (map (\<lambda>cell. (cell ! 0 XOR cell ! 1) AND NOT (cell ! 2))) (cells a)"

definition unphased_bool :: "bool ndarray \<Rightarrow> bool list list" where
  \<comment> \<open>the same expression on \<^verbatim>\<open>bool\<close>: logical\<close>
  "unphased_bool a = map (map (\<lambda>cell. (cell ! 0 \<noteq> cell ! 1) \<and> \<not> cell ! 2)) (cells a)"

definition take2 :: "'a ndarray \<Rightarrow> 'a ndarray" where
  \<comment> \<open>\<^verbatim>\<open>data[:, :, :2]\<close>\<close>
  "take2 a = a\<lparr>shape2 := min 2 (shape2 a), cells := map (map (take 2)) (cells a)\<rparr>"

definition phase_result ::
  "Genotypes \<Rightarrow> bool list list \<Rightarrow> data_attr \<Rightarrow> outcome \<times> Genotypes" where
  \<comment> \<open>lines 237 to 245, on the mask of the non-zero entries of \<^verbatim>\<open>unphased\<close>\<close>
  "phase_result self unphased sliced =
     (if np_any unphased then
        (case np_nonzero unphased of
           [] \<Rightarrow> (Raised IndexError, self)
         | ij # _ \<Rightarrow>
             (case named self ij of
                None \<Rightarrow> (Raised IndexError, self)
              | Some (vid, vchrom, vpos, samp) \<Rightarrow>
                  (Raised (UnphasedGenotype vid vchrom vpos samp), self)))
      else (Returned, self\<lparr>data := sliced\<rparr>))"

definition check_phase :: "Genotypes \<Rightarrow> outcome \<times> Genotypes" where
  "check_phase self =
     (case data self of
        NoData \<Rightarrow> (Raised AttributeError, self)
      | PyList p \<Rightarrow> (Raised AttributeError, self)
      | LowRank shp \<Rightarrow> (Raised IndexError, self)
      | UInt8Arr a \<Rightarrow>
          if shape2 a < 3
          then (Returned,
                warning ''Phase information has already been removed from the data'' self)
          else phase_result self (map (map (\<lambda>x. x \<noteq> 0)) (unphased_uint8 a))
                 (UInt8Arr (take2 a))
      | BoolArr a \<Rightarrow>
          if shape2 a < 3
          then (Returned,
                warning ''Phase information has already been removed from the data'' self)
          else phase_result self (unphased_bool a) (BoolArr (take2 a)))"

definition invert_where :: "('a \<Rightarrow> 'a) \<Rightarrow> bool list \<Rightarrow> 'a ndarray \<Rightarrow> 'a ndarray" where
  \<comment> \<open>\<^verbatim>\<open>data[:, m, :2] = ~data[:, m, :2]\<close>, with \<open>neg\<close> the dtype's \<^verbatim>\<open>~\<close>\<close>
  "invert_where neg msk a =
     a\<lparr>cells := map (\<lambda>row. map (\<lambda>(m, cell). if m then map neg (take 2 cell) @ drop 2 cell
                                               else cell)
                               (zip msk row))
                     (cells a)\<rparr>"

definition recode_freq :: "variant \<Rightarrow> variant" where
  "recode_freq v = (if var_aaf v > 1 / 2 then v\<lparr>var_aaf := 1 - var_aaf v\<rparr> else v)"

definition to_MAC :: "Genotypes \<Rightarrow> outcome \<times> Genotypes" where
  "to_MAC self =
     (case freq_field self of
        None \<Rightarrow> (Raised TypeError, self)
      | Some MAF \<Rightarrow>
          (Returned,
           warning (''The matrix already counts instances of the minor allele rather than ''
                    @ ''the ALT allele.'') self)
      | Some AAF \<Rightarrow>
          (let need_conversion = map (\<lambda>v. var_aaf v > 1 / 2) (variants self);
               finish = (\<lambda>d. (Returned,
                              self\<lparr>data := d,
                                   variants := map recode_freq (variants self),
                                   freq_field := Some MAF\<rparr>))
           in case data self of
                NoData \<Rightarrow> (Raised TypeError, self)
              | PyList p \<Rightarrow> (Raised TypeError, self)
              | LowRank shp \<Rightarrow> (Raised IndexError, self)
              | UInt8Arr a \<Rightarrow>
                  if length need_conversion \<noteq> shape1 a then (Raised IndexError, self)
                  else finish (UInt8Arr (invert_where (\<lambda>x. NOT x) need_conversion a))
              | BoolArr a \<Rightarrow>
                  if length need_conversion \<noteq> shape1 a then (Raised IndexError, self)
                  else finish (BoolArr (invert_where (\<lambda>x. \<not> x) need_conversion a))))"

section \<open>Notions the properties are stated with\<close>

text \<open>
  The data model's invariant: the tensor is three-dimensional, its shape is the shape of
  its elements, its sample axis is as long as \<open>samples\<close> and its variant axis as long as
  \<open>variants\<close>.
\<close>

definition wf_data :: "data_attr \<Rightarrow> bool" where
  "wf_data d = (case d of UInt8Arr a \<Rightarrow> wf_nd a | BoolArr a \<Rightarrow> wf_nd a | _ \<Rightarrow> False)"

definition tensor_axes :: "data_attr \<Rightarrow> (nat \<times> nat) option" where
  "tensor_axes d =
     (case d of UInt8Arr a \<Rightarrow> Some (shape0 a, shape1 a)
              | BoolArr a \<Rightarrow> Some (shape0 a, shape1 a)
              | _ \<Rightarrow> None)"

definition channels :: "data_attr \<Rightarrow> nat option" where
  "channels d =
     (case d of UInt8Arr a \<Rightarrow> Some (shape2 a) | BoolArr a \<Rightarrow> Some (shape2 a) | _ \<Rightarrow> None)"

definition aligned :: "Genotypes \<Rightarrow> bool" where
  "aligned self =
     (wf_data (data self) \<and>
      tensor_axes (data self) = Some (length (samples self), length (variants self)))"

text \<open>The three operations on a loaded matrix, and a caller that runs any of them in any
  order, going on after an operation that raised.\<close>

datatype operation = CheckBiallelic bool | CheckPhase | ToMAC

fun perform :: "operation \<Rightarrow> Genotypes \<Rightarrow> outcome \<times> Genotypes" where
  "perform (CheckBiallelic discard_also) self = check_biallelic discard_also self"
| "perform CheckPhase self = check_phase self"
| "perform ToMAC self = to_MAC self"

fun perform_all :: "operation list \<Rightarrow> Genotypes \<Rightarrow> Genotypes" where
  "perform_all [] self = self"
| "perform_all (x # xs) self = perform_all xs (snd (perform x self))"

text \<open>Row-major scan order on (sample, variant) index pairs.\<close>

definition scan_before :: "nat \<times> nat \<Rightarrow> nat \<times> nat \<Rightarrow> bool" where
  "scan_before p q = (fst p < fst q \<or> (fst p = fst q \<and> snd p < snd q))"

text \<open>
  The specification's flag of the phase check, in its words: an entry is flagged when
  strand 1 differs from strand 2 and the phase flag is false. It is the yardstick the
  source's bitwise expression \<open>unphased_uint8\<close> is compared with.
\<close>

definition spec_unphased :: "8 word ndarray \<Rightarrow> bool list list" where
  "spec_unphased a = map (map (\<lambda>cell. cell ! 0 \<noteq> cell ! 1 \<and> cell ! 2 = 0)) (cells a)"

text \<open>A variant is offending for the biallelic check when some sample has a value above 1
  in one of its first two channels.\<close>

definition offending_variant :: "8 word ndarray \<Rightarrow> nat \<Rightarrow> bool" where
  "offending_variant a j = list_ex (\<lambda>row. list_ex (\<lambda>x. 1 < x) (take 2 (row ! j))) (cells a)"




text \<open>The pair a validation error names is the first true entry of the check's mask in
  row-major order.\<close>

definition first_flagged :: "bool list list \<Rightarrow> nat \<times> nat \<Rightarrow> bool" where
  "first_flagged m ij =
     (fst ij < length m \<and> snd ij < length (m ! fst ij) \<and> m ! fst ij ! snd ij \<and>
      (\<forall>i' j'. i' < length m \<and> j' < length (m ! i') \<and> m ! i' ! j' \<longrightarrow>
           (i', j') = ij \<or> scan_before ij (i', j')))"

section \<open>Example data\<close>

definition ex_variants :: "variant list" where
  "ex_variants =
     [\<lparr>var_id = ''1:10114:T:C'', var_chrom = ''1'', var_pos = 10114, var_aaf = 0\<rparr>,
      \<lparr>var_id = ''1:10116:A:G'', var_chrom = ''1'', var_pos = 10116, var_aaf = 6 / 10\<rparr>]"

definition ex_obj :: "data_attr \<Rightarrow> Genotypes" where
  "ex_obj d =
     \<lparr>data = d, samples = [''HG00096'', ''HG00097''], variants = ex_variants,
      freq_field = Some AAF, log_records = []\<rparr>"

definition ex_tensor :: "8 word list list list \<Rightarrow> 8 word ndarray" where
  "ex_tensor cs = \<lparr>shape0 = 2, shape1 = 2, shape2 = 3, cells = cs\<rparr>"

definition ex_records :: "vcf_record list" where
  "ex_records =
     [\<lparr>rec_ID = ''1:10114:T:C'', rec_CHROM = ''1'', rec_POS = 10114, rec_aaf = 0,
       rec_genotypes = (\<lambda>i. [(0, 0, True), (0, 0, True)] ! i)\<rparr>,
      \<lparr>rec_ID = ''1:10116:A:G'', rec_CHROM = ''1'', rec_POS = 10116, rec_aaf = 6 / 10,
       rec_genotypes = (\<lambda>i. [(0, 1, True), (1, 1, True)] ! i)\<rparr>]"

definition ex_vcf :: VCF where
  \<comment> \<open>two samples, two variants on contig 1; a region on \<^verbatim>\<open>chr1\<close> matches nothing\<close>
  "ex_vcf =
     \<lparr>VCF_samples = (\<lambda>sel. [''HG00096'', ''HG00097'']),
      VCF_call = (\<lambda>sel region. if region = Some ''chr1'' then [] else ex_records)\<rparr>"

definition ex_empty_vcf :: VCF where
  "ex_empty_vcf = \<lparr>VCF_samples = (\<lambda>sel. []), VCF_call = (\<lambda>sel region. [])\<rparr>"

section \<open>Evaluation rules\<close>

lemmas ex_defs = ex_obj_def ex_tensor_def ex_variants_def
lemmas scan_defs = np_any_def np_nonzero_def named_def warning_def
lemmas phase_defs = check_phase_def phase_result_def unphased_uint8_def unphased_bool_def
  take2_def
lemmas biallelic_defs = check_biallelic_def multiallelic_mask_def np_delete_def
  np_delete_axis1_def delete_at_def map_nd_def
lemmas mac_defs = to_MAC_def invert_where_def recode_freq_def

section \<open>Scan order of \<^verbatim>\<open>np.nonzero\<close>\<close>

lemma set_nonzero_row:
  "set (nonzero_row i j bs) = {(i, j + k) |k. k < length bs \<and> bs ! k}"
proof (induction bs arbitrary: j)
  case Nil
  show ?case by simp
next
  case (Cons b bs)
  have "{(i, j + k) |k. k < length (b # bs) \<and> (b # bs) ! k} =
        (if b then {(i, j)} else {}) \<union> {(i, Suc j + k) |k. k < length bs \<and> bs ! k}"
    (is "?L = ?R")
  proof (rule set_eqI)
    fix x
    show "x \<in> ?L \<longleftrightarrow> x \<in> ?R"
    proof
      assume "x \<in> ?L"
      then obtain k where k: "x = (i, j + k)" "k < length (b # bs)" "(b # bs) ! k" by blast
      show "x \<in> ?R"
      proof (cases k)
        case 0
        with k show ?thesis by simp
      next
        case (Suc k')
        with k have "x = (i, Suc j + k')" "k' < length bs" "bs ! k'" by simp_all
        then show ?thesis by blast
      qed
    next
      assume "x \<in> ?R"
      then consider "b" "x = (i, j)" | k where "x = (i, Suc j + k)" "k < length bs" "bs ! k"
        by (auto split: if_splits)
      then show "x \<in> ?L"
      proof cases
        case 1
        then have "x = (i, j + 0) \<and> 0 < length (b # bs) \<and> (b # bs) ! 0" by simp
        then show ?thesis by blast
      next
        case 2
        then have "x = (i, j + Suc k) \<and> Suc k < length (b # bs) \<and> (b # bs) ! Suc k" by simp
        then show ?thesis by blast
      qed
    qed
  qed
  then show ?case using Cons.IH [of "Suc j"] by simp
qed

lemma sorted_nonzero_row: "sorted_wrt scan_before (nonzero_row i j bs)"
proof (induction bs arbitrary: j)
  case Nil
  show ?case by simp
next
  case (Cons b bs)
  have "\<forall>q \<in> set (nonzero_row i (Suc j) bs). scan_before (i, j) q"
    by (auto simp: set_nonzero_row scan_before_def)
  then show ?case using Cons.IH [of "Suc j"] by simp
qed

lemma set_nonzero_from:
  "set (nonzero_from i rs) =
     {(i + r, j) |r j. r < length rs \<and> j < length (rs ! r) \<and> rs ! r ! j}"
proof (induction rs arbitrary: i)
  case Nil
  show ?case by simp
next
  case (Cons row rs)
  have "{(i + r, j) |r j. r < length (row # rs) \<and> j < length ((row # rs) ! r) \<and> (row # rs) ! r ! j} =
        {(i, j) |j. j < length row \<and> row ! j} \<union>
        {(Suc i + r, j) |r j. r < length rs \<and> j < length (rs ! r) \<and> rs ! r ! j}"
    (is "?L = ?R")
  proof (rule set_eqI)
    fix x
    show "x \<in> ?L \<longleftrightarrow> x \<in> ?R"
    proof
      assume "x \<in> ?L"
      then obtain r j where r: "x = (i + r, j)" "r < length (row # rs)"
        "j < length ((row # rs) ! r)" "(row # rs) ! r ! j" by blast
      show "x \<in> ?R"
      proof (cases r)
        case 0
        with r show ?thesis by simp
      next
        case (Suc r')
        with r have "x = (Suc i + r', j)" "r' < length rs" "j < length (rs ! r')" "rs ! r' ! j"
          by simp_all
        then show ?thesis by blast
      qed
    next
      assume "x \<in> ?R"
      then consider j where "x = (i, j)" "j < length row" "row ! j"
        | r j where "x = (Suc i + r, j)" "r < length rs" "j < length (rs ! r)" "rs ! r ! j"
        by blast
      then show "x \<in> ?L"
      proof cases
        case 1
        then have "x = (i + 0, j) \<and> 0 < length (row # rs) \<and> j < length ((row # rs) ! 0)
                   \<and> (row # rs) ! 0 ! j" by simp
        then show ?thesis by blast
      next
        case 2
        then have "x = (i + Suc r, j) \<and> Suc r < length (row # rs)
                   \<and> j < length ((row # rs) ! Suc r) \<and> (row # rs) ! Suc r ! j" by simp
        then show ?thesis by blast
      qed
    qed
  qed
  then show ?case using Cons.IH [of "Suc i"] by (simp add: set_nonzero_row)
qed

lemma sorted_nonzero_from: "sorted_wrt scan_before (nonzero_from i rs)"
proof (induction rs arbitrary: i)
  case Nil
  show ?case by simp
next
  case (Cons row rs)
  have "\<forall>p \<in> set (nonzero_row i 0 row). \<forall>q \<in> set (nonzero_from (Suc i) rs). scan_before p q"
    by (auto simp: set_nonzero_row set_nonzero_from scan_before_def)
  then show ?case using Cons.IH [of "Suc i"]
    by (simp add: sorted_wrt_append sorted_nonzero_row)
qed

lemma set_np_nonzero:
  "set (np_nonzero m) = {(i, j). i < length m \<and> j < length (m ! i) \<and> m ! i ! j}"
  by (auto simp: np_nonzero_def set_nonzero_from)

lemma np_any_iff: "np_any m \<longleftrightarrow> (\<exists>i j. i < length m \<and> j < length (m ! i) \<and> m ! i ! j)"
proof
  assume "np_any m"
  then obtain row where row: "row \<in> set m" "True \<in> set row"
    by (auto simp: np_any_def list_ex_iff)
  from row(1) obtain i where i: "i < length m" "m ! i = row" by (auto simp: in_set_conv_nth)
  from row(2) obtain j where j: "j < length row" "row ! j" by (auto simp: in_set_conv_nth)
  from i j show "\<exists>i j. i < length m \<and> j < length (m ! i) \<and> m ! i ! j" by blast
next
  assume "\<exists>i j. i < length m \<and> j < length (m ! i) \<and> m ! i ! j"
  then obtain i j where ij: "i < length m" "j < length (m ! i)" "m ! i ! j" by blast
  have "m ! i \<in> set m" using ij(1) by (rule nth_mem)
  moreover have "m ! i ! j \<in> set (m ! i)" using ij(2) by (rule nth_mem)
  ultimately show "np_any m" using ij(3) unfolding np_any_def list_ex_iff by blast
qed

lemma np_nonzero_first:
  assumes "np_nonzero m = (i, j) # rest"
  shows "i < length m \<and> j < length (m ! i) \<and> m ! i ! j \<and>
         (\<forall>i' j'. i' < length m \<and> j' < length (m ! i') \<and> m ! i' ! j' \<longrightarrow>
              (i', j') = (i, j) \<or> scan_before (i, j) (i', j'))"
proof -
  have "(i, j) \<in> set (np_nonzero m)" using assms by simp
  then have a: "i < length m \<and> j < length (m ! i) \<and> m ! i ! j" by (simp add: set_np_nonzero)
  have "sorted_wrt scan_before ((i, j) # rest)"
    using sorted_nonzero_from [of 0 m] assms by (simp add: np_nonzero_def)
  then have b: "\<forall>q \<in> set rest. scan_before (i, j) q" by simp
  have "\<forall>i' j'. i' < length m \<and> j' < length (m ! i') \<and> m ! i' ! j' \<longrightarrow>
              (i', j') = (i, j) \<or> scan_before (i, j) (i', j')"
  proof (intro allI impI)
    fix i' j'
    assume "i' < length m \<and> j' < length (m ! i') \<and> m ! i' ! j'"
    then have "(i', j') \<in> set (np_nonzero m)" by (simp add: set_np_nonzero)
    then have "(i', j') = (i, j) \<or> (i', j') \<in> set rest" using assms by auto
    then show "(i', j') = (i, j) \<or> scan_before (i, j) (i', j')" using b by blast
  qed
  with a show ?thesis by blast
qed

section \<open>Deleting by index\<close>

lemma delete_at_nths: "delete_at idx xs = nths xs (- set idx)"
proof -
  have "zip xs [0..<length xs] = map (\<lambda>p. (snd p, fst p)) (enumerate 0 xs)"
    by (simp add: enumerate_eq_zip zip_commute [of xs] case_prod_beta)
  then show ?thesis
    by (simp add: delete_at_def nths_def filter_map o_def)
qed

lemma nths_cong_below:
  assumes "\<forall>j < length xs. j \<in> A \<longleftrightarrow> j \<in> B"
  shows "nths xs A = nths xs B"
proof -
  have "\<forall>p \<in> set (zip xs [0..<length xs]). snd p \<in> A \<longleftrightarrow> snd p \<in> B"
    using assms by (auto dest: set_zip_rightD)
  then have "filter (\<lambda>p. snd p \<in> A) (zip xs [0..<length xs]) =
             filter (\<lambda>p. snd p \<in> B) (zip xs [0..<length xs])"
    by (intro filter_cong) auto
  then show ?thesis by (simp add: nths_def)
qed

lemma length_delete_at:
  assumes "\<forall>j \<in> set idx. j < length xs"
  shows "length (delete_at idx xs) = length xs - length (remdups idx)"
proof -
  have "{i. i < length xs \<and> i \<in> - set idx} = {..<length xs} - set idx" by auto
  moreover have "set idx \<subseteq> {..<length xs}" using assms by auto
  ultimately have "card {i. i < length xs \<and> i \<in> - set idx} = length xs - card (set idx)"
    by (simp add: card_Diff_subset)
  then show ?thesis
    by (simp add: delete_at_nths length_nths length_remdups_card_conv)
qed

section \<open>The columnar loader never returns\<close>

text \<open>
  C2. The claim asks \<^verbatim>\<open>GenotypesPLINK.read\<close> to populate samples, variants and the tensor
  and to complete without error on a well-formed source. The method computes
  \<^verbatim>\<open>variant_ct_end - variant_ct_start\<close> with \<^verbatim>\<open>variant_ct_end = None\<close>: whatever the source,
  the object and the selection, it raises \<^verbatim>\<open>TypeError\<close> before the source is opened, and
  samples, variants and data are left as they were.
\<close>

theorem GenotypesPLINK_read_raises:
  "GenotypesPLINK_read pgen region samps self =
     (Raised TypeError,
      self\<lparr>plink_log_records :=
             Data_read (plink_data self \<noteq> None) (plink_log_records self)\<rparr>)"
  by (simp add: GenotypesPLINK_read_def py_sub_def)

section \<open>The phase check on data that is not narrowed\<close>

text \<open>
  Where the bitwise expression is right: on values 0 and 1 the \<^verbatim>\<open>uint8\<close> mask is the
  specification's flag, and on \<^verbatim>\<open>bool\<close> data the check raises exactly when some entry
  is heterozygous and unphased.
\<close>

lemma u8_le_1: "(x :: 8 word) \<le> 1 \<Longrightarrow> x = 0 \<or> x = 1"
  by (metis word_le_less_eq word_less_1)

lemma unphased_binary:
  fixes s1 s2 ph :: "8 word"
  assumes "s1 \<le> 1" "s2 \<le> 1" "ph \<le> 1"
  shows "((s1 XOR s2) AND NOT ph \<noteq> 0) \<longleftrightarrow> (s1 \<noteq> s2 \<and> ph = 0)"
  using u8_le_1 [OF assms(1)] u8_le_1 [OF assms(2)] u8_le_1 [OF assms(3)] by auto

lemma unphased_uint8_binary:
  assumes "\<forall>row \<in> set (cells a). \<forall>cell \<in> set row. cell ! 0 \<le> 1 \<and> cell ! 1 \<le> 1 \<and> cell ! 2 \<le> 1"
  shows "map (map (\<lambda>x. x \<noteq> 0)) (unphased_uint8 a) = spec_unphased a"
proof -
  have "((cell ! 0 XOR cell ! 1) AND NOT (cell ! 2) \<noteq> 0) =
        (cell ! 0 \<noteq> cell ! 1 \<and> cell ! 2 = 0)"
    if "row \<in> set (cells a)" "cell \<in> set row" for row cell
    using assms that by (intro unphased_binary) blast+
  then show ?thesis
    by (simp add: unphased_uint8_def spec_unphased_def)
qed

lemma check_phase_bool_raises_iff:
  assumes "data self = BoolArr a" "3 \<le> shape2 a"
  shows "(\<exists>e. fst (check_phase self) = Raised e) \<longleftrightarrow>
         (\<exists>i j. i < length (cells a) \<and> j < length (cells a ! i) \<and>
                 cells a ! i ! j ! 0 \<noteq> cells a ! i ! j ! 1 \<and> \<not> cells a ! i ! j ! 2)"
proof -
  have "(\<exists>e. fst (check_phase self) = Raised e) \<longleftrightarrow> np_any (unphased_bool a)"
    using assms
    by (simp add: check_phase_def phase_result_def split: list.split option.split prod.split)
  also have "\<dots> \<longleftrightarrow> (\<exists>i j. i < length (cells a) \<and> j < length (cells a ! i) \<and>
                 cells a ! i ! j ! 0 \<noteq> cells a ! i ! j ! 1 \<and> \<not> cells a ! i ! j ! 2)"
  proof -
    have l: "length (unphased_bool a) = length (cells a)" by (simp add: unphased_bool_def)
    have r: "length (unphased_bool a ! i) = length (cells a ! i)" if "i < length (cells a)" for i
      using that by (simp add: unphased_bool_def)
    have e: "unphased_bool a ! i ! j =
               (cells a ! i ! j ! 0 \<noteq> cells a ! i ! j ! 1 \<and> \<not> cells a ! i ! j ! 2)"
      if "i < length (cells a)" "j < length (cells a ! i)" for i j
      using that by (simp add: unphased_bool_def)
    show ?thesis
      unfolding np_any_iff l using r e by (metis (no_types, lifting))
  qed
  finally show ?thesis .
qed

text \<open>
  C1. The claim: \<^verbatim>\<open>check_phase\<close> raises if and only if some (sample, variant) entry has
  strand 1 different from strand 2 and a false phase flag, also on \<^verbatim>\<open>uint8\<close> data with
  values above 1. The source computes \<^verbatim>\<open>(s1 ^ s2) & ~phase\<close> bitwise: on \<^verbatim>\<open>uint8\<close> the
  complement of the phase flag 1 is 254, which keeps every bit of \<^verbatim>\<open>s1 ^ s2\<close> but the
  lowest. On the two-by-two matrix below, whose entry (sample 0, variant 1) is the phased
  call (2, 0, 1) and whose other entries are homozygous, no entry is heterozygous and
  unphased, and \<^verbatim>\<open>check_phase\<close> raises all the same.
\<close>

theorem check_phase_flags_phased_entry:
  "check_phase (ex_obj (UInt8Arr (ex_tensor [[[0, 0, 1], [2, 0, 1]], [[0, 0, 1], [1, 1, 1]]]))) =
     (Raised (UnphasedGenotype ''1:10116:A:G'' ''1'' 10116 ''HG00096''),
      ex_obj (UInt8Arr (ex_tensor [[[0, 0, 1], [2, 0, 1]], [[0, 0, 1], [1, 1, 1]]])))
   \<and> \<not> np_any (spec_unphased (ex_tensor [[[0, 0, 1], [2, 0, 1]], [[0, 0, 1], [1, 1, 1]]]))"
  by (simp add: ex_defs scan_defs phase_defs spec_unphased_def)

section \<open>The pair an error names\<close>

lemma named_Some:
  assumes "named self (i, j) = Some (vid, vchrom, vpos, samp)"
  shows "j < length (variants self) \<and> i < length (samples self) \<and>
         vid = var_id (variants self ! j) \<and> vchrom = var_chrom (variants self ! j) \<and>
         vpos = var_pos (variants self ! j) \<and> samp = samples self ! i"
  using assms by (simp add: named_def split: if_splits)

lemma np_nonzero_first_flagged: "np_nonzero m = ij # rest \<Longrightarrow> first_flagged m ij"
  using np_nonzero_first [of m "fst ij" "snd ij" rest] by (simp add: first_flagged_def)

lemma check_biallelic_names_first:
  assumes "data self = UInt8Arr a"
    and "fst (check_biallelic False self) = Raised (MultiallelicSite vid vchrom vpos samp)"
  shows "\<exists>i j. first_flagged (multiallelic_mask a) (i, j) \<and>
           vid = var_id (variants self ! j) \<and> vchrom = var_chrom (variants self ! j) \<and>
           vpos = var_pos (variants self ! j) \<and> samp = samples self ! i"
proof (cases "np_nonzero (multiallelic_mask a)")
  case Nil
  with assms show ?thesis by (simp add: check_biallelic_def Let_def split: if_splits)
next
  case (Cons ij rest)
  obtain i j where ij: "ij = (i, j)" by (cases ij)
  have f: "first_flagged (multiallelic_mask a) (i, j)"
    using Cons ij np_nonzero_first_flagged by blast
  have "named self (i, j) = Some (vid, vchrom, vpos, samp)"
    using assms Cons ij
    by (simp add: check_biallelic_def Let_def split: if_splits option.splits prod.splits)
  from named_Some [OF this] f show ?thesis by blast
qed

lemma phase_result_names_first:
  assumes "fst (phase_result self m sliced) = Raised (UnphasedGenotype vid vchrom vpos samp)"
  shows "\<exists>i j. first_flagged m (i, j) \<and>
           vid = var_id (variants self ! j) \<and> vchrom = var_chrom (variants self ! j) \<and>
           vpos = var_pos (variants self ! j) \<and> samp = samples self ! i"
proof (cases "np_nonzero m")
  case Nil
  with assms show ?thesis by (simp add: phase_result_def split: if_splits)
next
  case (Cons ij rest)
  obtain i j where ij: "ij = (i, j)" by (cases ij)
  have f: "first_flagged m (i, j)" using Cons ij np_nonzero_first_flagged by blast
  have "named self (i, j) = Some (vid, vchrom, vpos, samp)"
    using assms Cons ij
    by (simp add: phase_result_def split: if_splits option.splits prod.splits)
  from named_Some [OF this] f show ?thesis by blast
qed

lemma check_phase_bool_names_first:
  assumes "data self = BoolArr a"
    and "fst (check_phase self) = Raised (UnphasedGenotype vid vchrom vpos samp)"
  shows "\<exists>i j. first_flagged (unphased_bool a) (i, j) \<and>
           vid = var_id (variants self ! j) \<and> vchrom = var_chrom (variants self ! j) \<and>
           vpos = var_pos (variants self ! j) \<and> samp = samples self ! i"
proof -
  have "fst (phase_result self (unphased_bool a) (BoolArr (take2 a))) =
          Raised (UnphasedGenotype vid vchrom vpos samp)"
    using assms by (simp add: check_phase_def split: if_splits)
  then show ?thesis by (rule phase_result_names_first)
qed

text \<open>
  C9. The claim: the error of a failing check names the first offending (sample, variant)
  pair in sample-major scan order. For \<^verbatim>\<open>check_phase\<close> on \<^verbatim>\<open>uint8\<close> data the pair named is
  the first non-zero entry of the bitwise expression, which need not be offending: below,
  the only heterozygous unphased entry is (sample 0, variant 1), and the error names
  variant 0, whose call (2, 0, 1) is phased.
\<close>

theorem check_phase_names_phased_entry:
  "check_phase (ex_obj (UInt8Arr (ex_tensor [[[2, 0, 1], [0, 1, 0]], [[0, 0, 1], [0, 0, 1]]]))) =
     (Raised (UnphasedGenotype ''1:10114:T:C'' ''1'' 10114 ''HG00096''),
      ex_obj (UInt8Arr (ex_tensor [[[2, 0, 1], [0, 1, 0]], [[0, 0, 1], [0, 0, 1]]])))
   \<and> np_nonzero (spec_unphased (ex_tensor [[[2, 0, 1], [0, 1, 0]], [[0, 0, 1], [0, 0, 1]]])) = [(0, 1)]"
  by (simp add: ex_defs scan_defs phase_defs spec_unphased_def)

section \<open>Reading an empty selection\<close>

text \<open>What \<^verbatim>\<open>read\<close> does on every selection that yields no record, whatever the samples:
  nothing but the base class's record is logged, and the call raises.\<close>

lemma read_no_records:
  assumes "VCF_call vcf samps region = []"
  shows "Genotypes_read vcf region samps self =
           (Raised ValueError,
            self\<lparr>log_records := Data_read (data self \<noteq> NoData) (log_records self),
                 samples := VCF_samples vcf samps, variants := [],
                 freq_field := Some AAF, data := LowRank [0]\<rparr>)"
  using assms by (simp add: Genotypes_read_def np_array_shape_def Let_def)

text \<open>
  C3. The claim: a read whose result has zero samples and zero variants does not raise; it
  logs a warning and leaves the matrix empty. The method has that warning (lines 123 to
  127) and goes on after it, but guards it with \<^verbatim>\<open>shape == (0, 0, 0)\<close>, and the array built
  from no records has the shape (0,): the guard never holds, and the transpose that
  follows rejects the one-axis array. On a source with no samples and no records, read
  from a fresh object, nothing is logged and the call raises.
\<close>

theorem read_empty_aborts_unwarned:
  "Genotypes_read ex_empty_vcf None None (Genotypes_init []) =
     (Raised ValueError,
      \<lparr>data = LowRank [0], samples = [], variants = [], freq_field = Some AAF,
       log_records = []\<rparr>)"
  by (simp add: Genotypes_read_def ex_empty_vcf_def Genotypes_init_def Data_read_def
      np_array_shape_def Let_def)

section \<open>A failing check changes nothing\<close>

text \<open>
  C5. Whenever \<^verbatim>\<open>check_biallelic\<close> (with \<^verbatim>\<open>discard_also\<close> false) or \<^verbatim>\<open>check_phase\<close>
  raises, its validation error or any other, the object is exactly as it was before the
  call: tensor, samples and variants (and the log).
\<close>

theorem failing_check_leaves_matrix:
  "(fst (check_biallelic False self) = Raised e \<longrightarrow> snd (check_biallelic False self) = self) \<and>
   (fst (check_phase self) = Raised e' \<longrightarrow> snd (check_phase self) = self)"
  by (auto simp: check_biallelic_def check_phase_def phase_result_def Let_def warning_def
      split: data_attr.splits list.splits option.splits if_splits prod.splits)

theorem failing_check_leaves_matrix_witness:
  "fst (check_biallelic False (ex_obj (UInt8Arr (ex_tensor [[[0, 0, 1], [0, 1, 1]], [[0, 0, 1], [0, 2, 0]]]))))
     = Raised (MultiallelicSite ''1:10116:A:G'' ''1'' 10116 ''HG00097'') \<and>
   snd (check_biallelic False (ex_obj (UInt8Arr (ex_tensor [[[0, 0, 1], [0, 1, 1]], [[0, 0, 1], [0, 2, 0]]]))))
     = ex_obj (UInt8Arr (ex_tensor [[[0, 0, 1], [0, 1, 1]], [[0, 0, 1], [0, 2, 0]]])) \<and>
   fst (check_phase (ex_obj (UInt8Arr (ex_tensor [[[0, 0, 1], [0, 1, 1]], [[0, 0, 1], [0, 2, 0]]]))))
     = Raised (UnphasedGenotype ''1:10116:A:G'' ''1'' 10116 ''HG00097'') \<and>
   snd (check_phase (ex_obj (UInt8Arr (ex_tensor [[[0, 0, 1], [0, 1, 1]], [[0, 0, 1], [0, 2, 0]]]))))
     = ex_obj (UInt8Arr (ex_tensor [[[0, 0, 1], [0, 1, 1]], [[0, 0, 1], [0, 2, 0]]]))"
proof -
  let ?g = "ex_obj (UInt8Arr (ex_tensor [[[0, 0, 1], [0, 1, 1]], [[0, 0, 1], [0, 2, 0]]]))"
  have b: "fst (check_biallelic False ?g) = Raised (MultiallelicSite ''1:10116:A:G'' ''1'' 10116 ''HG00097'')"
    by (simp add: ex_defs scan_defs biallelic_defs)
  have p: "fst (check_phase ?g) = Raised (UnphasedGenotype ''1:10116:A:G'' ''1'' 10116 ''HG00097'')"
    by (simp add: ex_defs scan_defs phase_defs)
  from failing_check_leaves_matrix [of ?g] b p show ?thesis by simp
qed

section \<open>Calling an operation a second time\<close>

lemma check_biallelic_on_bool:
  "data s = BoolArr b \<Longrightarrow>
   check_biallelic d s = (Returned, warning ''All genotypes are already biallelic'' s)"
  by (simp add: check_biallelic_def)

lemma check_biallelic_returns_bool:
  "fst (check_biallelic d self) = Returned \<longrightarrow>
     (\<exists>b. data (snd (check_biallelic d self)) = BoolArr b)"
  by (simp add: check_biallelic_def Let_def warning_def
      split: data_attr.split list.split option.split prod.split)

lemma check_phase_on_sliced:
  "channels (data s) = Some c \<Longrightarrow> c < 3 \<Longrightarrow>
   check_phase s =
     (Returned, warning ''Phase information has already been removed from the data'' s)"
  by (auto simp add: check_phase_def channels_def split: data_attr.splits)

lemma check_phase_returns_sliced:
  "fst (check_phase self) = Returned \<longrightarrow>
     (\<exists>c. channels (data (snd (check_phase self))) = Some c \<and> c < 3)"
  by (simp add: check_phase_def phase_result_def channels_def take2_def warning_def
      split: data_attr.split list.split option.split prod.split)

lemma to_MAC_on_maf:
  "freq_field s = Some MAF \<Longrightarrow>
   to_MAC s =
     (Returned,
      warning (''The matrix already counts instances of the minor allele rather than ''
               @ ''the ALT allele.'') s)"
  by (simp add: to_MAC_def)

lemma to_MAC_returns_maf:
  "fst (to_MAC self) = Returned \<longrightarrow> freq_field (snd (to_MAC self)) = Some MAF"
  by (simp add: to_MAC_def Let_def warning_def
      split: data_attr.split option.split freq_name.split)

text \<open>
  C10. After \<^verbatim>\<open>check_biallelic\<close>, \<^verbatim>\<open>check_phase\<close> or \<^verbatim>\<open>to_MAC\<close> has returned, calling the
  same operation again returns normally and leaves the object as it is but for one more
  record in the log: tensor, samples and variants are unchanged and exactly one warning
  is emitted.
\<close>

theorem second_call_only_warns:
  "(fst (check_biallelic d self) = Returned \<longrightarrow>
      check_biallelic d (snd (check_biallelic d self)) =
        (Returned,
         (snd (check_biallelic d self))
           \<lparr>log_records := log_records (snd (check_biallelic d self))
                             @ [''All genotypes are already biallelic'']\<rparr>)) \<and>
   (fst (check_phase self) = Returned \<longrightarrow>
      check_phase (snd (check_phase self)) =
        (Returned,
         (snd (check_phase self))
           \<lparr>log_records := log_records (snd (check_phase self))
                             @ [''Phase information has already been removed from the data'']\<rparr>)) \<and>
   (fst (to_MAC self) = Returned \<longrightarrow>
      to_MAC (snd (to_MAC self)) =
        (Returned,
         (snd (to_MAC self))
           \<lparr>log_records := log_records (snd (to_MAC self))
                             @ [''The matrix already counts instances of the minor allele rather than ''
                                @ ''the ALT allele.'']\<rparr>))"
proof (intro conjI impI)
  assume "fst (check_biallelic d self) = Returned"
  then obtain b where "data (snd (check_biallelic d self)) = BoolArr b"
    using check_biallelic_returns_bool by blast
  then show "check_biallelic d (snd (check_biallelic d self)) =
        (Returned,
         (snd (check_biallelic d self))
           \<lparr>log_records := log_records (snd (check_biallelic d self))
                             @ [''All genotypes are already biallelic'']\<rparr>)"
    by (simp add: check_biallelic_on_bool warning_def)
next
  assume "fst (check_phase self) = Returned"
  then obtain c where "channels (data (snd (check_phase self))) = Some c" "c < 3"
    using check_phase_returns_sliced by blast
  then show "check_phase (snd (check_phase self)) =
        (Returned,
         (snd (check_phase self))
           \<lparr>log_records := log_records (snd (check_phase self))
                             @ [''Phase information has already been removed from the data'']\<rparr>)"
    by (simp add: check_phase_on_sliced warning_def)
next
  assume "fst (to_MAC self) = Returned"
  then have "freq_field (snd (to_MAC self)) = Some MAF"
    using to_MAC_returns_maf by blast
  then show "to_MAC (snd (to_MAC self)) =
        (Returned,
         (snd (to_MAC self))
           \<lparr>log_records := log_records (snd (to_MAC self))
                             @ [''The matrix already counts instances of the minor allele rather than ''
                                @ ''the ALT allele.'']\<rparr>)"
    by (simp add: to_MAC_on_maf warning_def)
qed

theorem second_call_only_warns_witness:
  "fst (check_biallelic False (ex_obj (UInt8Arr (ex_tensor [[[0, 0, 1], [0, 1, 1]], [[0, 0, 1], [1, 1, 1]]])))) = Returned \<and>
   fst (check_phase (ex_obj (UInt8Arr (ex_tensor [[[0, 0, 1], [0, 1, 1]], [[0, 0, 1], [1, 1, 1]]])))) = Returned \<and>
   fst (to_MAC (ex_obj (UInt8Arr (ex_tensor [[[0, 0, 1], [0, 1, 1]], [[0, 0, 1], [1, 1, 1]]])))) = Returned \<and>
   log_records (snd (check_biallelic False (snd (check_biallelic False
      (ex_obj (UInt8Arr (ex_tensor [[[0, 0, 1], [0, 1, 1]], [[0, 0, 1], [1, 1, 1]]]))))))) =
     [''All genotypes are already biallelic''] \<and>
   data (snd (check_phase (snd (check_phase
      (ex_obj (UInt8Arr (ex_tensor [[[0, 0, 1], [0, 1, 1]], [[0, 0, 1], [1, 1, 1]]]))))))) =
     UInt8Arr \<lparr>shape0 = 2, shape1 = 2, shape2 = 2, cells = [[[0, 0], [0, 1]], [[0, 0], [1, 1]]]\<rparr> \<and>
   variants (snd (to_MAC (snd (to_MAC
      (ex_obj (UInt8Arr (ex_tensor [[[0, 0, 1], [0, 1, 1]], [[0, 0, 1], [1, 1, 1]]]))))))) =
     [\<lparr>var_id = ''1:10114:T:C'', var_chrom = ''1'', var_pos = 10114, var_aaf = 0\<rparr>,
      \<lparr>var_id = ''1:10116:A:G'', var_chrom = ''1'', var_pos = 10116, var_aaf = 4 / 10\<rparr>]"
proof -
  let ?g = "ex_obj (UInt8Arr (ex_tensor [[[0, 0, 1], [0, 1, 1]], [[0, 0, 1], [1, 1, 1]]]))"
  have b: "check_biallelic False ?g =
      (Returned, ex_obj (BoolArr \<lparr>shape0 = 2, shape1 = 2, shape2 = 3,
         cells = [[[False, False, True], [False, True, True]],
                  [[False, False, True], [True, True, True]]]\<rparr>))"
    by (simp add: ex_defs scan_defs biallelic_defs)
  have p: "check_phase ?g =
      (Returned, ex_obj (UInt8Arr \<lparr>shape0 = 2, shape1 = 2, shape2 = 2,
         cells = [[[0, 0], [0, 1]], [[0, 0], [1, 1]]]\<rparr>))"
    by (simp add: ex_defs scan_defs phase_defs)
  have m: "to_MAC ?g =
      (Returned,
       \<lparr>data = UInt8Arr \<lparr>shape0 = 2, shape1 = 2, shape2 = 3,
           cells = [[[0, 0, 1], [255, 254, 1]], [[0, 0, 1], [254, 254, 1]]]\<rparr>,
        samples = [''HG00096'', ''HG00097''],
        variants = [\<lparr>var_id = ''1:10114:T:C'', var_chrom = ''1'', var_pos = 10114, var_aaf = 0\<rparr>,
           \<lparr>var_id = ''1:10116:A:G'', var_chrom = ''1'', var_pos = 10116, var_aaf = 4 / 10\<rparr>],
        freq_field = Some MAF, log_records = []\<rparr>)"
    by (simp add: ex_defs scan_defs mac_defs)
  from second_call_only_warns [of False ?g] show ?thesis
    unfolding b p m by (simp add: ex_defs)
qed

section \<open>Shapes are kept\<close>

lemma wf_nd_row: "wf_nd a \<Longrightarrow> i < shape0 a \<Longrightarrow> length (cells a ! i) = shape1 a"
  by (simp add: wf_nd_def list_all_length)


lemma wf_nd_map_nd: "wf_nd (map_nd f a) = wf_nd a"
  by (simp add: wf_nd_def map_nd_def list_all_iff)

lemma wf_nd_take2: "wf_nd a \<Longrightarrow> wf_nd (take2 a)"
  by (auto simp: wf_nd_def take2_def list_all_iff min.commute)

lemma wf_nd_invert_where:
  assumes "wf_nd a" "length msk = shape1 a"
  shows "wf_nd (invert_where neg msk a)"
proof -
  have "length (zip msk row) = shape1 a \<and>
        (\<forall>mc \<in> set (zip msk row).
            length (case mc of (m, cell) \<Rightarrow>
                      if m then map neg (take 2 cell) @ drop 2 cell else cell) = shape2 a)"
    if r: "row \<in> set (cells a)" for row
  proof -
    have l: "length row = shape1 a" and c: "\<forall>cell \<in> set row. length cell = shape2 a"
      using assms(1) r by (auto simp: wf_nd_def list_all_iff)
    have "length (if m then map neg (take 2 cell) @ drop 2 cell else cell) = shape2 a"
      if "(m, cell) \<in> set (zip msk row)" for m cell
    proof -
      have "cell \<in> set row" using that by (rule set_zip_rightD)
      then have "length cell = shape2 a" using c by blast
      then show ?thesis by auto
    qed
    then show ?thesis using l assms(2) by auto
  qed
  then show ?thesis
    using assms by (simp add: wf_nd_def invert_where_def list_all_iff)
qed

lemma set_delete_at: "set (delete_at idx xs) \<subseteq> set xs"
  by (simp add: delete_at_nths set_nths_subset)

lemma wf_nd_delete:
  assumes "wf_nd a" "\<forall>j \<in> set idx. j < shape1 a"
  shows "wf_nd (a\<lparr>shape1 := shape1 a - length (remdups idx),
                  cells := map (delete_at idx) (cells a)\<rparr>)"
proof -
  have "\<And>row. row \<in> set (cells a) \<Longrightarrow>
          length (delete_at idx row) = shape1 a - length (remdups idx) \<and>
          (\<forall>cell \<in> set (delete_at idx row). length cell = shape2 a)"
  proof -
    fix row assume r: "row \<in> set (cells a)"
    then have l: "length row = shape1 a" and c: "\<forall>cell \<in> set row. length cell = shape2 a"
      using assms(1) by (auto simp: wf_nd_def list_all_iff)
    have "length (delete_at idx row) = length row - length (remdups idx)"
      using assms(2) l by (intro length_delete_at) simp
    moreover have "\<forall>cell \<in> set (delete_at idx row). length cell = shape2 a"
      using c set_delete_at [of idx row] by blast
    ultimately show "length (delete_at idx row) = shape1 a - length (remdups idx) \<and>
          (\<forall>cell \<in> set (delete_at idx row). length cell = shape2 a)"
      using l by simp
  qed
  then show ?thesis using assms(1) by (simp add: wf_nd_def list_all_iff)
qed

lemma multiallelic_entry:
  assumes "wf_nd a" "i < shape0 a" "j < shape1 a"
  shows "multiallelic_mask a ! i ! j = list_ex (\<lambda>x. 1 < x) (take 2 (cells a ! i ! j))"
  using assms wf_nd_row [of a i] by (simp add: multiallelic_mask_def wf_nd_def)

lemma multiallelic_dims:
  assumes "wf_nd a"
  shows "length (multiallelic_mask a) = shape0 a"
    and "i < shape0 a \<Longrightarrow> length (multiallelic_mask a ! i) = shape1 a"
  using assms wf_nd_row [of a i] by (simp_all add: multiallelic_mask_def wf_nd_def)

lemma variant_idx_set:
  assumes "wf_nd a"
  shows "set (map snd (np_nonzero (multiallelic_mask a))) =
           {j. j < shape1 a \<and> offending_variant a j}"
proof (rule set_eqI)
  fix j
  have "j \<in> set (map snd (np_nonzero (multiallelic_mask a))) \<longleftrightarrow>
        (\<exists>i. (i, j) \<in> set (np_nonzero (multiallelic_mask a)))" by force
  also have "\<dots> \<longleftrightarrow> (\<exists>i < shape0 a. j < shape1 a \<and>
                          list_ex (\<lambda>x. 1 < x) (take 2 (cells a ! i ! j)))"
    using assms
    by (auto simp: set_np_nonzero multiallelic_dims multiallelic_entry)
  also have "\<dots> \<longleftrightarrow> j < shape1 a \<and> offending_variant a j"
  proof -
    have "offending_variant a j \<longleftrightarrow>
          (\<exists>i < shape0 a. list_ex (\<lambda>x. 1 < x) (take 2 (cells a ! i ! j)))"
    proof
      assume "offending_variant a j"
      then obtain row where row: "row \<in> set (cells a)"
          "list_ex (\<lambda>x. 1 < x) (take 2 (row ! j))"
        by (auto simp: offending_variant_def list_ex_iff)
      from row(1) obtain i where "i < length (cells a)" "cells a ! i = row"
        by (auto simp: in_set_conv_nth)
      with row(2) assms show "\<exists>i < shape0 a. list_ex (\<lambda>x. 1 < x) (take 2 (cells a ! i ! j))"
        by (auto simp: wf_nd_def)
    next
      assume "\<exists>i < shape0 a. list_ex (\<lambda>x. 1 < x) (take 2 (cells a ! i ! j))"
      then obtain i where i: "i < shape0 a" "list_ex (\<lambda>x. 1 < x) (take 2 (cells a ! i ! j))"
        by blast
      have "cells a ! i \<in> set (cells a)" using i(1) assms by (simp add: wf_nd_def)
      with i(2) show "offending_variant a j"
        unfolding offending_variant_def list_ex_iff by blast
    qed
    then show ?thesis by blast
  qed
  finally show "j \<in> set (map snd (np_nonzero (multiallelic_mask a))) \<longleftrightarrow>
                j \<in> {j. j < shape1 a \<and> offending_variant a j}" by simp
qed

lemma check_biallelic_discards:
  assumes "data self = UInt8Arr a" "wf_nd a" "shape1 a = length (variants self)"
    "np_any (multiallelic_mask a)"
  shows "check_biallelic True self =
           (Returned,
            self\<lparr>variants := delete_at (map snd (np_nonzero (multiallelic_mask a))) (variants self),
                 data := BoolArr (map_nd (\<lambda>x. x \<noteq> 0)
                   (a\<lparr>shape1 := shape1 a - length (remdups (map snd (np_nonzero (multiallelic_mask a)))),
                      cells := map (delete_at (map snd (np_nonzero (multiallelic_mask a)))) (cells a)\<rparr>))\<rparr>)"
proof -
  have "\<forall>j \<in> set (map snd (np_nonzero (multiallelic_mask a))). j < shape1 a"
    using variant_idx_set [OF assms(2)] by blast
  then have "list_all (\<lambda>j. j < shape1 a) (map snd (np_nonzero (multiallelic_mask a)))"
    by (simp add: list_all_iff)
  then show ?thesis
    using assms by (simp add: check_biallelic_def np_delete_axis1_def np_delete_def Let_def)
qed

lemma read_aligned:
  "fst (Genotypes_read vcf region samps self) = Returned \<Longrightarrow>
   aligned (snd (Genotypes_read vcf region samps self))"
  by (auto simp: Genotypes_read_def Let_def np_array_shape_def aligned_def wf_data_def
      wf_nd_def tensor_axes_def list_all_iff cell_of_def warning_def split: if_splits prod.splits)

lemma check_biallelic_aligned:
  assumes "aligned self"
  shows "aligned (snd (check_biallelic d self))"
proof (cases "data self")
  case NoData
  with assms show ?thesis by (simp add: aligned_def wf_data_def)
next
  case (PyList p)
  with assms show ?thesis by (simp add: aligned_def wf_data_def)
next
  case (LowRank shp)
  with assms show ?thesis by (simp add: aligned_def wf_data_def)
next
  case (BoolArr b)
  with assms show ?thesis
    by (simp add: check_biallelic_def warning_def aligned_def)
next
  case (UInt8Arr a)
  with assms have wf: "wf_nd a" and ax: "shape0 a = length (samples self)"
      "shape1 a = length (variants self)"
    by (simp_all add: aligned_def wf_data_def tensor_axes_def)
  show ?thesis
  proof (cases "np_any (multiallelic_mask a)")
    case False
    with UInt8Arr wf ax show ?thesis
      by (simp add: check_biallelic_def aligned_def wf_data_def tensor_axes_def
          wf_nd_map_nd) (simp add: map_nd_def)
  next
    case True
    show ?thesis
    proof (cases d)
      case False
      have "snd (check_biallelic False self) = self"
        using UInt8Arr True
        by (simp add: check_biallelic_def Let_def split: list.split option.split prod.split)
      with False assms show ?thesis by simp
    next
      case d: True
      let ?idx = "map snd (np_nonzero (multiallelic_mask a))"
      have b: "\<forall>j \<in> set ?idx. j < shape1 a"
        using variant_idx_set [OF wf] by blast
      have "wf_nd (a\<lparr>shape1 := shape1 a - length (remdups ?idx),
                      cells := map (delete_at ?idx) (cells a)\<rparr>)"
        using wf b by (rule wf_nd_delete)
      moreover have "length (delete_at ?idx (variants self)) =
                     shape1 a - length (remdups ?idx)"
        using b ax(2) by (simp add: length_delete_at)
      ultimately show ?thesis
        using check_biallelic_discards [OF UInt8Arr wf ax(2) True] d ax(1)
        by (simp add: aligned_def wf_data_def tensor_axes_def wf_nd_map_nd)
           (simp add: map_nd_def)
    qed
  qed
qed

lemma phase_result_aligned:
  assumes "aligned self" "wf_data sliced"
    "tensor_axes sliced = tensor_axes (data self)"
  shows "aligned (snd (phase_result self unphased sliced))"
  using assms
  by (simp add: phase_result_def aligned_def split: list.split option.split prod.split)

lemma check_phase_aligned:
  assumes "aligned self"
  shows "aligned (snd (check_phase self))"
proof (cases "data self")
  case NoData
  with assms show ?thesis by (simp add: aligned_def wf_data_def)
next
  case (PyList p)
  with assms show ?thesis by (simp add: aligned_def wf_data_def)
next
  case (LowRank shp)
  with assms show ?thesis by (simp add: aligned_def wf_data_def)
next
  case (UInt8Arr a)
  with assms have wf: "wf_nd a" by (simp add: aligned_def wf_data_def)
  have w: "wf_data (UInt8Arr (take2 a))" using wf by (simp add: wf_data_def wf_nd_take2)
  have t: "tensor_axes (UInt8Arr (take2 a)) = tensor_axes (data self)"
    using UInt8Arr by (simp add: tensor_axes_def take2_def)
  have "aligned (snd (phase_result self m (UInt8Arr (take2 a))))" for m
    using assms w t by (rule phase_result_aligned)
  with assms UInt8Arr show ?thesis
    by (simp add: check_phase_def warning_def aligned_def)
next
  case (BoolArr a)
  with assms have wf: "wf_nd a" by (simp add: aligned_def wf_data_def)
  have w: "wf_data (BoolArr (take2 a))" using wf by (simp add: wf_data_def wf_nd_take2)
  have t: "tensor_axes (BoolArr (take2 a)) = tensor_axes (data self)"
    using BoolArr by (simp add: tensor_axes_def take2_def)
  have "aligned (snd (phase_result self m (BoolArr (take2 a))))" for m
    using assms w t by (rule phase_result_aligned)
  with assms BoolArr show ?thesis
    by (simp add: check_phase_def warning_def aligned_def)
qed

lemma to_MAC_aligned:
  assumes "aligned self"
  shows "aligned (snd (to_MAC self))"
proof (cases "freq_field self")
  case None
  with assms show ?thesis by (simp add: to_MAC_def)
next
  case (Some nm)
  show ?thesis
  proof (cases nm)
    case MAF
    with Some assms show ?thesis by (simp add: to_MAC_def warning_def aligned_def)
  next
    case AAF
    show ?thesis
    proof (cases "data self")
      case NoData
      with assms show ?thesis by (simp add: aligned_def wf_data_def)
    next
      case (PyList p)
      with assms show ?thesis by (simp add: aligned_def wf_data_def)
    next
      case (LowRank shp)
      with assms show ?thesis by (simp add: aligned_def wf_data_def)
    next
      case (UInt8Arr a)
      with assms have wf: "wf_nd a" and ax: "shape0 a = length (samples self)"
          "shape1 a = length (variants self)"
        by (simp_all add: aligned_def wf_data_def tensor_axes_def)
      have "wf_nd (invert_where (\<lambda>x. NOT x) (map (\<lambda>v. 1 / 2 < var_aaf v) (variants self)) a)"
        using wf ax(2) by (intro wf_nd_invert_where) simp_all
      with Some AAF UInt8Arr ax show ?thesis
        by (simp add: to_MAC_def Let_def aligned_def wf_data_def tensor_axes_def)
           (simp add: invert_where_def)
    next
      case (BoolArr a)
      with assms have wf: "wf_nd a" and ax: "shape0 a = length (samples self)"
          "shape1 a = length (variants self)"
        by (simp_all add: aligned_def wf_data_def tensor_axes_def)
      have "wf_nd (invert_where (\<lambda>x. \<not> x) (map (\<lambda>v. 1 / 2 < var_aaf v) (variants self)) a)"
        using wf ax(2) by (intro wf_nd_invert_where) simp_all
      with Some AAF BoolArr ax show ?thesis
        by (simp add: to_MAC_def Let_def aligned_def wf_data_def tensor_axes_def)
           (simp add: invert_where_def)
    qed
  qed
qed

lemma perform_aligned: "aligned self \<Longrightarrow> aligned (snd (perform x self))"
  by (cases x) (simp_all add: check_biallelic_aligned check_phase_aligned to_MAC_aligned)

lemma perform_all_aligned: "aligned self \<Longrightarrow> aligned (perform_all xs self)"
  by (induction xs arbitrary: self) (simp_all add: perform_aligned)

text \<open>
  C8. After a read that returned, and after any sequence of \<^verbatim>\<open>check_biallelic\<close>,
  \<^verbatim>\<open>check_phase\<close> and \<^verbatim>\<open>to_MAC\<close> calls on it, whether each returns, warns or raises,
  the tensor is three-dimensional with the shape of its elements, its sample axis is as
  long as \<open>samples\<close> and its variant axis as long as \<open>variants\<close>.
\<close>

theorem axes_agree_after_read:
  assumes "fst (Genotypes_read vcf region samps self) = Returned"
  shows "wf_data (data (perform_all xs (snd (Genotypes_read vcf region samps self)))) \<and>
         tensor_axes (data (perform_all xs (snd (Genotypes_read vcf region samps self)))) =
           Some (length (samples (perform_all xs (snd (Genotypes_read vcf region samps self)))),
                 length (variants (perform_all xs (snd (Genotypes_read vcf region samps self)))))"
  using perform_all_aligned [OF read_aligned [OF assms], of xs] by (simp add: aligned_def)

theorem axes_agree_after_read_witness:
  "fst (Genotypes_read ex_vcf None None (Genotypes_init [])) = Returned \<and>
   perform_all [CheckBiallelic True, CheckPhase, ToMAC, CheckPhase]
      (snd (Genotypes_read ex_vcf None None (Genotypes_init []))) =
     \<lparr>data = BoolArr \<lparr>shape0 = 2, shape1 = 2, shape2 = 2,
               cells = [[[False, False], [True, False]], [[False, False], [False, False]]]\<rparr>,
      samples = [''HG00096'', ''HG00097''],
      variants = [\<lparr>var_id = ''1:10114:T:C'', var_chrom = ''1'', var_pos = 10114, var_aaf = 0\<rparr>,
           \<lparr>var_id = ''1:10116:A:G'', var_chrom = ''1'', var_pos = 10116, var_aaf = 4 / 10\<rparr>],
      freq_field = Some MAF,
      log_records = [''Phase information has already been removed from the data'']\<rparr> \<and>
   tensor_axes (data (perform_all [CheckBiallelic True, CheckPhase, ToMAC, CheckPhase]
      (snd (Genotypes_read ex_vcf None None (Genotypes_init []))))) = Some (2, 2)"
proof -
  have r: "Genotypes_read ex_vcf None None (Genotypes_init []) =
      (Returned, ex_obj (UInt8Arr (ex_tensor [[[0, 0, 1], [0, 1, 1]], [[0, 0, 1], [1, 1, 1]]])))"
    by (simp add: Genotypes_read_def ex_vcf_def ex_records_def Genotypes_init_def Data_read_def
        np_array_shape_def variant_of_def cell_of_def ex_defs Let_def upt_rec)
  then have h: "fst (Genotypes_read ex_vcf None None (Genotypes_init [])) = Returned" by simp
  have e: "perform_all [CheckBiallelic True, CheckPhase, ToMAC, CheckPhase]
      (ex_obj (UInt8Arr (ex_tensor [[[0, 0, 1], [0, 1, 1]], [[0, 0, 1], [1, 1, 1]]]))) =
     \<lparr>data = BoolArr \<lparr>shape0 = 2, shape1 = 2, shape2 = 2,
               cells = [[[False, False], [True, False]], [[False, False], [False, False]]]\<rparr>,
      samples = [''HG00096'', ''HG00097''],
      variants = [\<lparr>var_id = ''1:10114:T:C'', var_chrom = ''1'', var_pos = 10114, var_aaf = 0\<rparr>,
           \<lparr>var_id = ''1:10116:A:G'', var_chrom = ''1'', var_pos = 10116, var_aaf = 4 / 10\<rparr>],
      freq_field = Some MAF,
      log_records = [''Phase information has already been removed from the data'']\<rparr>"
    by (simp add: ex_defs scan_defs biallelic_defs phase_defs mac_defs)
  from axes_agree_after_read [OF h, of "[CheckBiallelic True, CheckPhase, ToMAC, CheckPhase]"]
  show ?thesis unfolding r snd_conv fst_conv e by (simp add: tensor_axes_def)
qed

section \<open>Discarding multiallelic variants\<close>

lemma np_any_nonzero: "np_any m \<longleftrightarrow> np_nonzero m \<noteq> []"
proof -
  have "np_nonzero m \<noteq> [] \<longleftrightarrow> set (np_nonzero m) \<noteq> {}" by simp
  also have "\<dots> \<longleftrightarrow> (\<exists>i j. i < length m \<and> j < length (m ! i) \<and> m ! i ! j)"
    unfolding set_np_nonzero by auto
  finally show ?thesis by (simp add: np_any_iff)
qed

text \<open>
  C7. On a matrix of \<^verbatim>\<open>uint8\<close> data with some value above 1 in the first two channels,
  \<^verbatim>\<open>check_biallelic\<close> with \<^verbatim>\<open>discard_also\<close> true returns; what it leaves is the object
  with exactly the offending variants taken out of \<open>variants\<close> and out of every sample's
  row of the tensor (the others kept, in order; \<open>samples\<close> untouched), and with the
  remaining values narrowed to \<^verbatim>\<open>bool\<close>.
\<close>

theorem discard_removes_offending_variants:
  assumes "data self = UInt8Arr a" and "wf_nd a"
    and "shape1 a = length (variants self)"
    and "\<exists>j < shape1 a. offending_variant a j"
  shows "check_biallelic True self =
           (Returned,
            self\<lparr>variants := nths (variants self) {j. \<not> offending_variant a j},
                 data := BoolArr
                   \<lparr>shape0 = shape0 a,
                    shape1 = length (nths (variants self) {j. \<not> offending_variant a j}),
                    shape2 = shape2 a,
                    cells = map (\<lambda>row. map (map (\<lambda>x. x \<noteq> 0))
                                          (nths row {j. \<not> offending_variant a j}))
                                (cells a)\<rparr>\<rparr>)"
proof -
  let ?idx = "map snd (np_nonzero (multiallelic_mask a))"
  let ?keep = "{j. \<not> offending_variant a j}"
  have idx: "set ?idx = {j. j < shape1 a \<and> offending_variant a j}"
    using assms(2) by (rule variant_idx_set)
  have mem: "j \<in> set ?idx \<longleftrightarrow> j < shape1 a \<and> offending_variant a j" for j
    by (simp only: idx mem_Collect_eq)
  from assms(4) obtain j0 where "j0 \<in> set ?idx" using mem by blast
  then have "np_nonzero (multiallelic_mask a) \<noteq> []" by auto
  then have any: "np_any (multiallelic_mask a)" by (simp add: np_any_nonzero)
  have keep: "delete_at ?idx xs = nths xs ?keep"
    if len: "length xs = shape1 a" for xs :: "'b list"
  proof -
    have "\<forall>j < length xs. j \<in> - set ?idx \<longleftrightarrow> j \<in> ?keep"
      using mem len by (simp only: Compl_iff mem_Collect_eq) simp
    then have "nths xs (- set ?idx) = nths xs ?keep" by (rule nths_cong_below)
    then show ?thesis by (simp only: delete_at_nths)
  qed
  have v: "delete_at ?idx (variants self) = nths (variants self) ?keep"
    using assms(3) by (intro keep) simp
  have "delete_at ?idx row = nths row ?keep" if "row \<in> set (cells a)" for row
  proof (rule keep)
    show "length row = shape1 a" using that assms(2) by (simp add: wf_nd_def list_all_iff)
  qed
  then have r: "map (delete_at ?idx) (cells a) = map (\<lambda>row. nths row ?keep) (cells a)"
    by (intro map_cong refl)
  have "\<forall>j \<in> set ?idx. j < length (variants self)" using mem assms(3) by simp
  then have l: "shape1 a - length (remdups ?idx) = length (nths (variants self) ?keep)"
    using assms(3) length_delete_at [of ?idx "variants self"] by (simp only: v)
  have "check_biallelic True self =
           (Returned,
            self\<lparr>variants := delete_at ?idx (variants self),
                 data := BoolArr (map_nd (\<lambda>x. x \<noteq> 0)
                   (a\<lparr>shape1 := shape1 a - length (remdups ?idx),
                      cells := map (delete_at ?idx) (cells a)\<rparr>))\<rparr>)"
    using assms(1,2,3) any by (rule check_biallelic_discards)
  then show ?thesis
    by (simp only: v r l) (simp add: map_nd_def)
qed

theorem discard_removes_offending_variants_witness:
  "(\<exists>j < 2. offending_variant (ex_tensor [[[0, 0, 1], [0, 1, 1]], [[0, 0, 1], [0, 2, 1]]]) j) \<and>
   wf_nd (ex_tensor [[[0, 0, 1], [0, 1, 1]], [[0, 0, 1], [0, 2, 1]]]) \<and>
   check_biallelic True
       (ex_obj (UInt8Arr (ex_tensor [[[0, 0, 1], [0, 1, 1]], [[0, 0, 1], [0, 2, 1]]]))) =
     (Returned,
      \<lparr>data = BoolArr \<lparr>shape0 = 2, shape1 = 1, shape2 = 3,
                cells = [[[False, False, True]], [[False, False, True]]]\<rparr>,
       samples = [''HG00096'', ''HG00097''],
       variants = [\<lparr>var_id = ''1:10114:T:C'', var_chrom = ''1'', var_pos = 10114, var_aaf = 0\<rparr>],
       freq_field = Some AAF, log_records = []\<rparr>)"
proof -
  let ?a = "ex_tensor [[[0, 0, 1], [0, 1, 1]], [[0, 0, 1], [0, 2, 1]]]"
  let ?g = "ex_obj (UInt8Arr ?a)"
  have o0: "\<not> offending_variant ?a 0" and o1: "offending_variant ?a 1"
    by (simp_all add: offending_variant_def ex_tensor_def)
  have h1: "data ?g = UInt8Arr ?a" by (simp add: ex_obj_def)
  have h2: "wf_nd ?a" by (simp add: wf_nd_def ex_tensor_def)
  have h4: "shape1 ?a = length (variants ?g)" by (simp add: ex_defs)
  have h5: "\<exists>j < shape1 ?a. offending_variant ?a j"
    using o1 by (intro exI [of _ 1]) (simp add: ex_tensor_def)
  have k: "nths [x, y] {j. \<not> offending_variant ?a j} = [x]" for x y :: 'b
    using o0 o1 by (simp add: nths_Cons)
  have c: "cells ?a = [[[0, 0, 1], [0, 1, 1]], [[0, 0, 1], [0, 2, 1]]]"
      "variants ?g = ex_variants" "shape0 ?a = 2" "shape1 ?a = 2" "shape2 ?a = 3"
    by (simp_all add: ex_defs)
  from discard_removes_offending_variants [OF h1 h2 h4 h5] h2 h5
  show ?thesis unfolding c unfolding ex_variants_def list.map k
    by (simp add: ex_obj_def ex_variants_def)
qed

section \<open>Recoding to the minor allele\<close>






end
